theory Spec2Isabelle
  imports Main "HOL-Library.Word"
begin

section \<open>Machine types of the Go sources\<close>

text \<open>
  The two Go files are modelled for a 64-bit target (amd64, arm64): Go's \<open>int\<close> and
  \<open>uint\<close> are 64 bits wide, cgo's \<open>C.int\<close> is 32 bits wide.  All of them are words,
  so \<open>+\<close> and \<open>*\<close> wrap around as they do in Go; a signed type is a word read with
  \<open>sint\<close>.  A Go conversion between integer types keeps the low bits: \<open>ucast\<close> from
  64 to 32 bits that is \<open>C.int(x)\<close>, and \<open>of_nat\<close> of a non-negative length.
\<close>

type_synonym byte = "8 word"
type_synonym go_int = "64 word"
type_synonym uint = "64 word"
type_synonym c_int = "32 word"
type_synonym int32 = "32 word"

text \<open>
  The error values of package chromaprint, \<open>io.EOF\<close>, and any other error value a
  source may return from \<open>Read\<close> (told apart by its message).
\<close>

datatype error =
    ErrSetOption | ErrStart | ErrFeed | ErrFinish | ErrFprint | ErrRawFprint
  | EOF
  | SourceError string

text \<open>
  Run-time panics of the Go code: \<open>data[0]\<close> on an empty slice, \<open>buf[:read]\<close>
  with \<open>read\<close> beyond the capacity of \<open>buf\<close>, and \<open>make\<close> with a length that is
  not a value of \<open>int\<close>.  A function that may panic returns
  \<open>panic + result\<close>; a Go result of type \<open>error\<close> is an \<open>error option\<close>, \<open>None\<close>
  being \<open>nil\<close>.
\<close>

datatype panic = IndexOutOfRange | SliceBoundsOutOfRange | LenOutOfRange

section \<open>The C library behind package chromaprint\<close>

text \<open>
  libchromaprint is not part of the repository: it is a parameter of the model.  Its
  state behind the \<open>*C.ChromaprintContext\<close> pointer is a value of an arbitrary type
  \<open>'s\<close>; every C function takes that state and returns its C result together with
  the new state.  \<open>chromaprint_feed\<close> receives the memory at the pointer it is given
  (the bytes of the Go slice) and the sample count it is given.
  \<open>chromaprint_get_raw_fingerprint\<close> returns the array it allocated, its length being
  the \<open>size\<close> it reports.
\<close>

record 's engine =
  chromaprint_new :: "c_int \<Rightarrow> 's"
  chromaprint_set_option :: "'s \<Rightarrow> string \<Rightarrow> c_int \<Rightarrow> c_int \<times> 's"
  chromaprint_start :: "'s \<Rightarrow> c_int \<Rightarrow> c_int \<Rightarrow> c_int \<times> 's"
  chromaprint_feed :: "'s \<Rightarrow> byte list \<Rightarrow> c_int \<Rightarrow> c_int \<times> 's"
  chromaprint_finish :: "'s \<Rightarrow> c_int \<times> 's"
  chromaprint_get_fingerprint :: "'s \<Rightarrow> (c_int \<times> string) \<times> 's"
  chromaprint_get_raw_fingerprint :: "'s \<Rightarrow> (c_int \<times> int32 list) \<times> 's"
  chromaprint_get_item_duration_ms :: "'s \<Rightarrow> c_int \<times> 's"
  chromaprint_get_item_duration :: "'s \<Rightarrow> c_int \<times> 's"

section \<open>chromaprint.go\<close>

text \<open>
  \<open>type ChromaprintContext struct { context *C.ChromaprintContext; algorithm int }\<close>.
  The field \<open>context\<close> is written \<open>context'\<close> (\<open>context\<close> is a keyword of Isabelle); it
  holds the state of the C object the pointer refers to.
\<close>

record 's ChromaprintContext =
  context' :: 's
  algorithm :: go_int

definition NewChromaprint :: "'s engine \<Rightarrow> go_int \<Rightarrow> 's ChromaprintContext" where
  "NewChromaprint eng a =
     \<lparr>context' = chromaprint_new eng (ucast a), algorithm = a\<rparr>"

definition Algorithm :: "'s ChromaprintContext \<Rightarrow> go_int" where
  "Algorithm ctx = algorithm ctx"

text \<open>\<open>int(r) < 1\<close> for a C result \<open>r\<close>: the test of every wrapper.\<close>

definition failed :: "c_int \<Rightarrow> bool" where
  "failed r = (sint r < 1)"

definition SetOption ::
  "'s engine \<Rightarrow> 's ChromaprintContext \<Rightarrow> string \<Rightarrow> go_int \<Rightarrow> error option \<times> 's ChromaprintContext"
where
  "SetOption eng ctx name v =
     (case chromaprint_set_option eng (context' ctx) name (ucast v) of
        (r, s) \<Rightarrow> (if failed r then Some ErrSetOption else None, ctx\<lparr>context' := s\<rparr>))"

definition Start ::
  "'s engine \<Rightarrow> 's ChromaprintContext \<Rightarrow> go_int \<Rightarrow> go_int \<Rightarrow> error option \<times> 's ChromaprintContext"
where
  "Start eng ctx sampleRate numChannels =
     (case chromaprint_start eng (context' ctx) (ucast sampleRate) (ucast numChannels) of
        (r, s) \<Rightarrow> (if failed r then Some ErrStart else None, ctx\<lparr>context' := s\<rparr>))"

text \<open>
  \<open>Feed\<close> takes the address of \<open>data[0]\<close> before it calls C: on an empty slice the
  index is out of range and the function panics.  Otherwise C gets the bytes at that
  address and \<open>C.int(len(data)/2)\<close>.
\<close>

definition Feed ::
  "'s engine \<Rightarrow> 's ChromaprintContext \<Rightarrow> byte list \<Rightarrow>
     panic + (error option \<times> 's ChromaprintContext)"
where
  "Feed eng ctx data =
     (if data = [] then Inl IndexOutOfRange
      else case chromaprint_feed eng (context' ctx) data (of_nat (length data div 2)) of
        (r, s) \<Rightarrow> Inr (if failed r then Some ErrFeed else None, ctx\<lparr>context' := s\<rparr>))"

definition Finish ::
  "'s engine \<Rightarrow> 's ChromaprintContext \<Rightarrow> error option \<times> 's ChromaprintContext"
where
  "Finish eng ctx =
     (case chromaprint_finish eng (context' ctx) of
        (r, s) \<Rightarrow> (if failed r then Some ErrFinish else None, ctx\<lparr>context' := s\<rparr>))"

definition GetFingerprint ::
  "'s engine \<Rightarrow> 's ChromaprintContext \<Rightarrow> (string \<times> error option) \<times> 's ChromaprintContext"
where
  "GetFingerprint eng ctx =
     (case chromaprint_get_fingerprint eng (context' ctx) of
        ((r, str), s) \<Rightarrow>
          (if failed r then ('''', Some ErrFprint) else (str, None), ctx\<lparr>context' := s\<rparr>))"

text \<open>
  A result of type \<open>[]int32\<close> is an \<open>int32 list option\<close>, \<open>None\<close> being the \<open>nil\<close>
  slice.  \<open>goInt32s\<close> copies the \<open>size\<close> elements of the C array into a new slice.
\<close>

definition goInt32s :: "int32 list \<Rightarrow> int32 list option" where
  "goInt32s cints = Some cints"

definition GetRawFingerprint ::
  "'s engine \<Rightarrow> 's ChromaprintContext \<Rightarrow>
     (int32 list option \<times> error option) \<times> 's ChromaprintContext"
where
  "GetRawFingerprint eng ctx =
     (case chromaprint_get_raw_fingerprint eng (context' ctx) of
        ((r, arr), s) \<Rightarrow>
          (if failed r then (None, Some ErrRawFprint) else (goInt32s arr, None),
           ctx\<lparr>context' := s\<rparr>))"

text \<open>\<open>time.Duration(ms) * time.Millisecond\<close>, a 64-bit count of nanoseconds.\<close>

definition GetItemDuration ::
  "'s engine \<Rightarrow> 's ChromaprintContext \<Rightarrow> go_int \<times> 's ChromaprintContext"
where
  "GetItemDuration eng ctx =
     (case chromaprint_get_item_duration_ms eng (context' ctx) of
        (ms, s) \<Rightarrow> (scast ms * 1000000, ctx\<lparr>context' := s\<rparr>))"

definition GetItemDurationSamples ::
  "'s engine \<Rightarrow> 's ChromaprintContext \<Rightarrow> go_int \<times> 's ChromaprintContext"
where
  "GetItemDurationSamples eng ctx =
     (case chromaprint_get_item_duration eng (context' ctx) of
        (n, s) \<Rightarrow> (scast n, ctx\<lparr>context' := s\<rparr>))"

text \<open>
  Any sequence of calls on one context.  A panic ends the sequence: \<open>run_ops\<close> returns
  the context as it is when the sequence ends or panics.
\<close>

datatype op =
    Op_SetOption string go_int
  | Op_Start go_int go_int
  | Op_Feed "byte list"
  | Op_Finish
  | Op_GetFingerprint
  | Op_GetRawFingerprint
  | Op_GetItemDuration
  | Op_GetItemDurationSamples

fun apply_op ::
  "'s engine \<Rightarrow> 's ChromaprintContext \<Rightarrow> op \<Rightarrow> panic + 's ChromaprintContext"
where
  "apply_op eng ctx (Op_SetOption name v) = Inr (snd (SetOption eng ctx name v))"
| "apply_op eng ctx (Op_Start r c) = Inr (snd (Start eng ctx r c))"
| "apply_op eng ctx (Op_Feed data) =
     (case Feed eng ctx data of Inl pn \<Rightarrow> Inl pn | Inr (e, ctx') \<Rightarrow> Inr ctx')"
| "apply_op eng ctx Op_Finish = Inr (snd (Finish eng ctx))"
| "apply_op eng ctx Op_GetFingerprint = Inr (snd (GetFingerprint eng ctx))"
| "apply_op eng ctx Op_GetRawFingerprint = Inr (snd (GetRawFingerprint eng ctx))"
| "apply_op eng ctx Op_GetItemDuration = Inr (snd (GetItemDuration eng ctx))"
| "apply_op eng ctx Op_GetItemDurationSamples = Inr (snd (GetItemDurationSamples eng ctx))"

fun run_ops ::
  "'s engine \<Rightarrow> 's ChromaprintContext \<Rightarrow> op list \<Rightarrow> 's ChromaprintContext \<times> panic option"
where
  "run_ops eng ctx [] = (ctx, None)"
| "run_ops eng ctx (x # xs) =
     (case apply_op eng ctx x of
        Inl pn \<Rightarrow> (ctx, Some pn)
      | Inr ctx' \<Rightarrow> run_ops eng ctx' xs)"

section \<open>A recording C library\<close>

text \<open>
  To say which C functions a Go function calls, and with which arguments, the library
  is wrapped: \<open>traced eng\<close> behaves as \<open>eng\<close> does and appends every call it receives to
  a history kept beside the state of \<open>eng\<close>.
\<close>

datatype ccall =
    Call_new c_int
  | Call_set_option string c_int
  | Call_start c_int c_int
  | Call_feed "byte list" c_int
  | Call_finish
  | Call_get_fingerprint
  | Call_get_raw_fingerprint
  | Call_get_item_duration_ms
  | Call_get_item_duration

definition traced :: "'s engine \<Rightarrow> ('s \<times> ccall list) engine" where
  "traced eng =
     \<lparr>chromaprint_new = (\<lambda>a. (chromaprint_new eng a, [Call_new a])),
      chromaprint_set_option = (\<lambda>sl name v.
         case chromaprint_set_option eng (fst sl) name v of
           (r, s) \<Rightarrow> (r, (s, snd sl @ [Call_set_option name v]))),
      chromaprint_start = (\<lambda>sl rate ch.
         case chromaprint_start eng (fst sl) rate ch of
           (r, s) \<Rightarrow> (r, (s, snd sl @ [Call_start rate ch]))),
      chromaprint_feed = (\<lambda>sl data n.
         case chromaprint_feed eng (fst sl) data n of
           (r, s) \<Rightarrow> (r, (s, snd sl @ [Call_feed data n]))),
      chromaprint_finish = (\<lambda>sl.
         case chromaprint_finish eng (fst sl) of
           (r, s) \<Rightarrow> (r, (s, snd sl @ [Call_finish]))),
      chromaprint_get_fingerprint = (\<lambda>sl.
         case chromaprint_get_fingerprint eng (fst sl) of
           (r, s) \<Rightarrow> (r, (s, snd sl @ [Call_get_fingerprint]))),
      chromaprint_get_raw_fingerprint = (\<lambda>sl.
         case chromaprint_get_raw_fingerprint eng (fst sl) of
           (r, s) \<Rightarrow> (r, (s, snd sl @ [Call_get_raw_fingerprint]))),
      chromaprint_get_item_duration_ms = (\<lambda>sl.
         case chromaprint_get_item_duration_ms eng (fst sl) of
           (r, s) \<Rightarrow> (r, (s, snd sl @ [Call_get_item_duration_ms]))),
      chromaprint_get_item_duration = (\<lambda>sl.
         case chromaprint_get_item_duration eng (fst sl) of
           (r, s) \<Rightarrow> (r, (s, snd sl @ [Call_get_item_duration])))\<rparr>"

text \<open>The calls a context of the recording library has received.\<close>

definition calls :: "('s \<times> ccall list) ChromaprintContext \<Rightarrow> ccall list" where
  "calls ctx = snd (context' ctx)"

section \<open>The audio source\<close>

text \<open>
  \<open>fingerprint.RawInfo\<close> and \<open>io.Reader\<close> are declared outside the repository.  The
  code fixes how they are used: \<open>MaxSeconds\<close> is compared with a \<open>uint\<close>, and \<open>Rate\<close>
  and \<open>Channels\<close> are multiplied into the \<open>uint\<close> size of the buffer, so the three
  are \<open>uint\<close>.  A reader is a state machine: \<open>Read(buf)\<close> takes the state of the
  source and \<open>len(buf)\<close> and returns the bytes it stored at the front of \<open>buf\<close> (their
  number is the count \<open>n\<close> it reports, never negative), its error and the next state of
  the source.  A reader may break the contract of \<open>io.Reader\<close> and report more bytes
  than \<open>len(buf)\<close>.
\<close>

type_synonym 'r reader = "'r \<Rightarrow> nat \<Rightarrow> (byte list \<times> error option) \<times> 'r"

record 'r RawInfo =
  Src :: 'r
  Channels :: uint
  Rate :: uint
  MaxSeconds :: uint

section \<open>The feeder (package gochroma)\<close>

definition seconds :: uint where
  "seconds = 10"

definition minmaxseconds :: uint where
  "minmaxseconds = 120"

text \<open>\<open>type Printer struct { context *chromaprint.ChromaprintContext }\<close>\<close>

record 's Printer =
  pcontext :: "'s ChromaprintContext"

definition New :: "'s engine \<Rightarrow> go_int \<Rightarrow> 's Printer" where
  "New eng a = \<lparr>pcontext = NewChromaprint eng a\<rparr>"

text \<open>
  The \<open>for\<close> loop of \<open>prepare\<close>, from a value \<open>total'\<close> of its counter on (the counter
  is \<open>total\<close> in the source).  The loop may run forever, so its result is an option:
  \<open>None\<close> when it never ends.  When it ends the result is a panic, or the error
  \<open>prepare\<close> returns from inside the loop (\<open>None\<close> when the loop is left by \<open>break\<close> or
  by its condition), the context and the state of the source.  \<open>numbytes\<close> is
  \<open>len(buf)\<close>; \<open>buf[:read]\<close> panics when \<open>read\<close> is beyond it.
\<close>

partial_function (option) feed_loop ::
  "'s engine \<Rightarrow> 'r reader \<Rightarrow> nat \<Rightarrow> uint \<Rightarrow> 's ChromaprintContext \<Rightarrow> 'r \<Rightarrow> uint \<Rightarrow>
     (panic + (error option \<times> 's ChromaprintContext \<times> 'r)) option"
where
  "feed_loop eng rd numbytes maxs ctx src total' =
     (if total' \<le> maxs then
        (case rd src numbytes of
           ((bs, err), src') \<Rightarrow>
             if err \<noteq> None \<and> err \<noteq> Some EOF then Some (Inr (err, ctx, src'))
             else if length bs = 0 then Some (Inr (None, ctx, src'))
             else if numbytes < length bs then Some (Inl SliceBoundsOutOfRange)
             else (case Feed eng ctx bs of
                     Inl pn \<Rightarrow> Some (Inl pn)
                   | Inr (Some e, ctx') \<Rightarrow> Some (Inr (Some e, ctx', src'))
                   | Inr (None, ctx') \<Rightarrow>
                       feed_loop eng rd numbytes maxs ctx' src' (total' + seconds)))
      else Some (Inr (None, ctx, src)))"

text \<open>
  \<open>prepare\<close>.  \<open>make([]byte, numbytes)\<close> panics when \<open>numbytes\<close> is not a value of
  \<open>int\<close>; the memory of the machine is taken to suffice otherwise.
\<close>

definition prepare ::
  "'s engine \<Rightarrow> 'r reader \<Rightarrow> 's Printer \<Rightarrow> 'r RawInfo \<Rightarrow>
     (panic + (error option \<times> 's Printer \<times> 'r)) option"
where
  "prepare eng rd p i0 =
     (let i = (if MaxSeconds i0 < minmaxseconds then i0\<lparr>MaxSeconds := minmaxseconds\<rparr> else i0);
          ctx = pcontext p;
          rate = Rate i;
          channels = Channels i
      in case Start eng ctx rate channels of
           (Some e, ctx1) \<Rightarrow> Some (Inr (Some e, p\<lparr>pcontext := ctx1\<rparr>, Src i))
         | (None, ctx1) \<Rightarrow>
             (let numbytes = 2 * seconds * rate * channels
              in if 2 ^ 63 \<le> unat numbytes then Some (Inl LenOutOfRange)
                 else
                   (case feed_loop eng rd (unat numbytes) (MaxSeconds i) ctx1 (Src i) 0 of
                      None \<Rightarrow> None
                    | Some (Inl pn) \<Rightarrow> Some (Inl pn)
                    | Some (Inr (Some e, ctx2, src')) \<Rightarrow>
                        Some (Inr (Some e, p\<lparr>pcontext := ctx2\<rparr>, src'))
                    | Some (Inr (None, ctx2, src')) \<Rightarrow>
                        (case Finish eng ctx2 of
                           (e, ctx3) \<Rightarrow> Some (Inr (e, p\<lparr>pcontext := ctx3\<rparr>, src'))))))"



text \<open>
  The value of \<open>i.MaxSeconds\<close> after the first statement of \<open>prepare\<close>: the cap the
  loop compares its counter with.
\<close>

definition cap :: "'r RawInfo \<Rightarrow> uint" where
  "cap i = (if MaxSeconds i < minmaxseconds then minmaxseconds else MaxSeconds i)"

section \<open>Vocabulary of the properties\<close>

text \<open>
  \<open>feed_chunks eng rd numbytes k ctx src\<close>: the source supplies \<open>k\<close> chunks in a row
  and the library takes them.  It is the body of the loop run \<open>k\<close> times without the
  test of the counter, and it is \<open>None\<close> unless each of the \<open>k\<close> reads returns data
  that fits the buffer with no error but \<open>io.EOF\<close>, and each \<open>Feed\<close> succeeds.
\<close>

fun feed_chunks ::
  "'s engine \<Rightarrow> 'r reader \<Rightarrow> nat \<Rightarrow> nat \<Rightarrow> 's ChromaprintContext \<Rightarrow> 'r \<Rightarrow>
     ('s ChromaprintContext \<times> 'r) option"
where
  "feed_chunks eng rd numbytes 0 ctx src = Some (ctx, src)"
| "feed_chunks eng rd numbytes (Suc k) ctx src =
     (case rd src numbytes of
        ((bs, err), src') \<Rightarrow>
          if (err = None \<or> err = Some EOF) \<and> bs \<noteq> [] \<and> length bs \<le> numbytes then
            (case Feed eng ctx bs of
               Inr (None, ctx') \<Rightarrow> feed_chunks eng rd numbytes k ctx' src'
             | _ \<Rightarrow> None)
          else None)"

fun is_feed :: "ccall \<Rightarrow> bool" where
  "is_feed (Call_feed data n) = True"
| "is_feed c = False"


text \<open>The number of iterations left from a value of the counter, when it does not wrap.\<close>

definition feeds_bound :: "uint \<Rightarrow> uint \<Rightarrow> nat" where
  "feeds_bound maxs total' =
     (if total' \<le> maxs then (unat maxs - unat total') div 10 + 1 else 0)"

section \<open>Concrete libraries and sources\<close>

text \<open>A library whose every call succeeds and that keeps no state.\<close>

definition ok_engine :: "unit engine" where
  "ok_engine =
     \<lparr>chromaprint_new = (\<lambda>a. ()),
      chromaprint_set_option = (\<lambda>s name v. (1, ())),
      chromaprint_start = (\<lambda>s rate ch. (1, ())),
      chromaprint_feed = (\<lambda>s data n. (1, ())),
      chromaprint_finish = (\<lambda>s. (1, ())),
      chromaprint_get_fingerprint = (\<lambda>s. ((1, ''AQAA''), ())),
      chromaprint_get_raw_fingerprint = (\<lambda>s. ((1, []), ())),
      chromaprint_get_item_duration_ms = (\<lambda>s. (0, ())),
      chromaprint_get_item_duration = (\<lambda>s. (0, ()))\<rparr>"

text \<open>A source that is never exhausted: every read fills the buffer with silence.\<close>

definition silence :: "unit reader" where
  "silence src n = ((replicate n 0, None), ())"

text \<open>
  A source that plays a script: each read returns the next entry, whatever the size of
  the buffer, and \<open>0, io.EOF\<close> once the script is over.
\<close>

definition script :: "(byte list \<times> error option) list reader" where
  "script src n = (case src of [] \<Rightarrow> (([], Some EOF), []) | x # xs \<Rightarrow> (x, xs))"

definition p0 :: "(unit \<times> ccall list) Printer" where
  "p0 = New (traced ok_engine) 0"

section \<open>Feeding a stream in chunks\<close>

text \<open>
  A stream fed to a started context as a list of chunks, one call of \<open>Feed\<close> for each,
  up to the first panic or error; then \<open>Finish\<close>, \<open>GetFingerprint\<close> and
  \<open>GetRawFingerprint\<close>.  \<open>chunked_run\<close> is a panic, the first error of \<open>Feed\<close> or
  \<open>Finish\<close>, or the two results of the extraction.
\<close>

fun feed_all ::
  "'s engine \<Rightarrow> 's ChromaprintContext \<Rightarrow> byte list list \<Rightarrow>
     panic + (error option \<times> 's ChromaprintContext)"
where
  "feed_all eng ctx [] = Inr (None, ctx)"
| "feed_all eng ctx (c # cs) =
     (case Feed eng ctx c of
        Inl pn \<Rightarrow> Inl pn
      | Inr (Some e, ctx') \<Rightarrow> Inr (Some e, ctx')
      | Inr (None, ctx') \<Rightarrow> feed_all eng ctx' cs)"

definition chunked_run ::
  "'s engine \<Rightarrow> 's ChromaprintContext \<Rightarrow> byte list list \<Rightarrow>
     panic + (error + ((string \<times> error option) \<times> (int32 list option \<times> error option)))"
where
  "chunked_run eng ctx chunks =
     (case feed_all eng ctx chunks of
        Inl pn \<Rightarrow> Inl pn
      | Inr (Some e, ctx1) \<Rightarrow> Inr (Inl e)
      | Inr (None, ctx1) \<Rightarrow>
          (case Finish eng ctx1 of
             (Some e, ctx2) \<Rightarrow> Inr (Inl e)
           | (None, ctx2) \<Rightarrow>
               (case GetFingerprint eng ctx2 of
                  (fp, ctx3) \<Rightarrow>
                    (case GetRawFingerprint eng ctx3 of
                       (raw, ctx4) \<Rightarrow> Inr (Inr (fp, raw))))))"

text \<open>
  What "feed is purely accumulative" asks of the library: feed never fails, and to feed
  the samples of \<open>xs\<close> and then the samples of \<open>ys\<close> leaves the state that feeding the
  samples of \<open>xs @ ys\<close> at once leaves, for whole samples and counts that a C \<open>int\<close>
  holds.
\<close>

definition feed_accumulates :: "'s engine \<Rightarrow> bool" where
  "feed_accumulates eng \<longleftrightarrow>
     (\<forall>s data n. \<not> failed (fst (chromaprint_feed eng s data n))) \<and>
     (\<forall>s xs ys. even (length xs) \<and> even (length ys) \<and> length xs + length ys < 2 ^ 32 \<longrightarrow>
        snd (chromaprint_feed eng s (xs @ ys) (of_nat (length (xs @ ys) div 2))) =
        snd (chromaprint_feed eng
               (snd (chromaprint_feed eng s xs (of_nat (length xs div 2))))
               ys (of_nat (length ys div 2))))"

text \<open>
  A library that accumulates and nothing more: its state is the bytes of the samples it
  has been fed since start (\<open>n\<close> samples are the first \<open>2 * n\<close> bytes at the pointer),
  and its fingerprints are those bytes, as a string and as integers.
\<close>

definition bytes_string :: "byte list \<Rightarrow> string" where
  "bytes_string bs = map (\<lambda>b. char_of (unat b)) bs"

definition acc_engine :: "byte list engine" where
  "acc_engine =
     \<lparr>chromaprint_new = (\<lambda>a. []),
      chromaprint_set_option = (\<lambda>s name v. (1, s)),
      chromaprint_start = (\<lambda>s rate ch. (1, [])),
      chromaprint_feed = (\<lambda>s data n. (1, s @ take (2 * nat (sint n)) data)),
      chromaprint_finish = (\<lambda>s. (1, s)),
      chromaprint_get_fingerprint = (\<lambda>s. ((1, bytes_string s), s)),
      chromaprint_get_raw_fingerprint = (\<lambda>s. ((1, map ucast s), s)),
      chromaprint_get_item_duration_ms = (\<lambda>s. (0, s)),
      chromaprint_get_item_duration = (\<lambda>s. (0, s))\<rparr>"

text \<open>A context of that library, started for mono audio at 44100 Hz.\<close>

definition c0 :: "byte list ChromaprintContext" where
  "c0 = snd (Start acc_engine (NewChromaprint acc_engine 0) 44100 1)"

section \<open>The recording library and the concrete sources, evaluated\<close>

text \<open>
  The recording library answers as the library it wraps and leaves it in the same
  state: it only adds the call to the history.
\<close>

lemma traced_transparent:
  "chromaprint_start (traced eng) (s, l) r c =
     (fst (chromaprint_start eng s r c), (snd (chromaprint_start eng s r c), l @ [Call_start r c]))"
  "chromaprint_feed (traced eng) (s, l) d n =
     (fst (chromaprint_feed eng s d n), (snd (chromaprint_feed eng s d n), l @ [Call_feed d n]))"
  "chromaprint_finish (traced eng) (s, l) =
     (fst (chromaprint_finish eng s), (snd (chromaprint_finish eng s), l @ [Call_finish]))"
  "chromaprint_get_fingerprint (traced eng) (s, l) =
     (fst (chromaprint_get_fingerprint eng s),
      (snd (chromaprint_get_fingerprint eng s), l @ [Call_get_fingerprint]))"
  "chromaprint_get_raw_fingerprint (traced eng) (s, l) =
     (fst (chromaprint_get_raw_fingerprint eng s),
      (snd (chromaprint_get_raw_fingerprint eng s), l @ [Call_get_raw_fingerprint]))"
  by (simp_all add: traced_def split: prod.splits)

lemma failed_1: "\<not> failed 1"
  by (simp add: failed_def)

lemma traced_ok_simps:
  "chromaprint_new (traced ok_engine) a = ((), [Call_new a])"
  "chromaprint_start (traced ok_engine) sl r c = (1, ((), snd sl @ [Call_start r c]))"
  "chromaprint_feed (traced ok_engine) sl d k = (1, ((), snd sl @ [Call_feed d k]))"
  "chromaprint_finish (traced ok_engine) sl = (1, ((), snd sl @ [Call_finish]))"
  by (simp_all add: traced_def ok_engine_def)

lemma Feed_traced_ok:
  "bs \<noteq> [] \<Longrightarrow> Feed (traced ok_engine) ctx bs =
     Inr (None, ctx\<lparr>context' := ((), snd (context' ctx) @ [Call_feed bs (of_nat (length bs div 2))])\<rparr>)"
  by (simp add: Feed_def traced_ok_simps failed_1)

lemma Start_traced_ok:
  "Start (traced ok_engine) ctx r c =
     (None, ctx\<lparr>context' := ((), snd (context' ctx) @ [Call_start (ucast r) (ucast c)])\<rparr>)"
  by (simp add: Start_def traced_ok_simps failed_1)

lemma Finish_traced_ok:
  "Finish (traced ok_engine) ctx =
     (None, ctx\<lparr>context' := ((), snd (context' ctx) @ [Call_finish])\<rparr>)"
  by (simp add: Finish_def traced_ok_simps failed_1)



lemma p0_calls: "pcontext p0 = \<lparr>context' = ((), [Call_new 0]), algorithm = 0\<rparr>"
  by (simp add: p0_def New_def NewChromaprint_def traced_ok_simps)

lemma Start_ok: "Start ok_engine ctx r c = (None, ctx\<lparr>context' := ()\<rparr>)"
  by (simp add: Start_def ok_engine_def failed_1)

lemma script_simps:
  "script [] n = (([], Some EOF), [])"
  "script (x # xs) n = (x, xs)"
  by (simp_all add: script_def)

lemma feed_chunks_silence:
  "0 < n \<Longrightarrow> feed_chunks (traced ok_engine) silence n k ctx () =
     Some (ctx\<lparr>context' := ((), snd (context' ctx) @ replicate k (Call_feed (replicate n 0) (of_nat (n div 2))))\<rparr>, ())"
proof (induction k arbitrary: ctx)
  case 0
  then show ?case by (cases ctx) auto
next
  case (Suc k)
  then show ?case
    by (simp add: silence_def Feed_traced_ok replicate_append_same)
qed

lemma c0_simp: "c0 = \<lparr>context' = [], algorithm = 0\<rparr>"
  by (simp add: c0_def Start_def NewChromaprint_def acc_engine_def failed_1)

lemma Feed_acc:
  "data \<noteq> [] \<Longrightarrow> Feed acc_engine ctx data =
     Inr (None, ctx\<lparr>context' := context' ctx @
        take (2 * nat (sint (of_nat (length data div 2) :: c_int))) data\<rparr>)"
  by (simp add: Feed_def acc_engine_def failed_1)

lemma tail_acc:
  "Finish acc_engine ctx = (None, ctx)"
  "GetFingerprint acc_engine ctx = ((bytes_string (context' ctx), None), ctx)"
  "GetRawFingerprint acc_engine ctx = ((Some (map ucast (context' ctx)), None), ctx)"
  by (simp_all add: Finish_def GetFingerprint_def GetRawFingerprint_def goInt32s_def
        acc_engine_def failed_1)




section \<open>Properties of chromaprint.go\<close>

text \<open>
  C7.  The claim: for every byte slice, the empty one included, \<open>Feed\<close> returns
  normally, with success or with the feed error, and an empty chunk is reported as a
  feed error.  The code at the empty slice: \<open>&data[0]\<close> is evaluated before the C call,
  the index is out of range, and \<open>Feed\<close> panics instead of returning \<open>ErrFeed\<close>.
\<close>

theorem Feed_empty_panics: "Feed eng ctx [] = Inl IndexOutOfRange"
  by (simp add: Feed_def)

lemma algorithm_apply_op: "apply_op eng ctx x = Inr ctx' \<Longrightarrow> algorithm ctx' = algorithm ctx"
  by (cases x)
     (auto simp: SetOption_def Start_def Feed_def Finish_def GetFingerprint_def
        GetRawFingerprint_def GetItemDuration_def GetItemDurationSamples_def
        split: prod.splits if_splits sum.splits)

lemma algorithm_run_ops: "algorithm (fst (run_ops eng ctx ops)) = algorithm ctx"
proof (induction ops arbitrary: ctx)
  case Nil
  show ?case by simp
next
  case (Cons x xs)
  show ?case
  proof (cases "apply_op eng ctx x")
    case (Inl pn)
    then show ?thesis by simp
  next
    case (Inr ctx')
    with Cons.IH [of ctx'] algorithm_apply_op [OF Inr] show ?thesis by simp
  qed
qed

text \<open>
  C8.  A context created with algorithm \<open>a\<close> answers \<open>a\<close> to \<open>Algorithm()\<close> after any
  sequence of SetOption, Start, Feed, Finish, GetFingerprint, GetRawFingerprint,
  GetItemDuration and GetItemDurationSamples calls (up to the point where a call
  panics, if one does): no method assigns the field.
\<close>

theorem Algorithm_immutable:
  "Algorithm (fst (run_ops eng (NewChromaprint eng a) ops)) = a"
  by (simp add: Algorithm_def algorithm_run_ops NewChromaprint_def)

lemma sint_count:
  assumes "k < 2 ^ 31"
  shows "sint (of_nat k :: c_int) = int k"
proof -
  from assms have lt: "int k < 2 ^ 31"
    by (metis of_nat_less_iff of_nat_numeral of_nat_power)
  have "sint (of_nat k :: c_int) = signed_take_bit 31 (int k)"
    by (simp add: signed_of_nat)
  also have "\<dots> = int k"
    using lt by (intro signed_take_bit_int_eq_self) simp_all
  finally show ?thesis .
qed

text \<open>
  C9, the claim as stated: for every slice of odd length \<open>2 * k + 1\<close> the count passed
  on is \<open>k\<close>.  The count is \<open>C.int(len(data)/2)\<close>, 32 bits wide: for a slice of
  \<open>2^32 + 1\<close> bytes \<open>k\<close> is \<open>2^31\<close> and the library is given the count \<open>- 2^31\<close>.
\<close>

theorem Feed_odd_count_wraps:
  "length (replicate 4294967297 (0 :: byte)) = 2 * 2147483648 + 1 \<and>
   Feed (traced ok_engine) (pcontext p0) (replicate 4294967297 0) =
     Inr (None, \<lparr>context' = ((), [Call_new 0,
        Call_feed (replicate 4294967297 0) (- 2147483648)]), algorithm = 0\<rparr>) \<and>
   sint (- 2147483648 :: c_int) = - 2147483648"
  by (simp add: Feed_traced_ok p0_calls)

text \<open>
  C9, as the code has it.  For a slice of odd length \<open>2 * k + 1\<close> whose half \<open>k\<close> is a
  value of C's \<open>int\<close> (\<open>k < 2^31\<close>), \<open>Feed\<close> does not panic and calls
  \<open>chromaprint_feed\<close> with the count \<open>k\<close>: the \<open>2 * k\<close> bytes of \<open>k\<close> samples, the last
  byte of the slice being beyond them.  It returns \<open>ErrFeed\<close> when the library fails
  and \<open>nil\<close> otherwise: the odd length itself is no error.
\<close>

theorem Feed_odd_forwards_half:
  assumes odd: "length data = 2 * k + 1" and fits: "k < 2 ^ 31"
  shows "Feed (traced eng) ctx data =
           (case chromaprint_feed eng (fst (context' ctx)) data (of_nat k) of
              (r, s) \<Rightarrow> Inr (if failed r then Some ErrFeed else None,
                             ctx\<lparr>context' := (s, calls ctx @ [Call_feed data (of_nat k)])\<rparr>)) \<and>
         sint (of_nat k :: c_int) = int k \<and>
         2 * k < length data"
proof -
  from odd have ne: "data \<noteq> []" by auto
  from odd have half: "length data div 2 = k" by simp
  have "Feed (traced eng) ctx data =
           (case chromaprint_feed eng (fst (context' ctx)) data (of_nat k) of
              (r, s) \<Rightarrow> Inr (if failed r then Some ErrFeed else None,
                             ctx\<lparr>context' := (s, calls ctx @ [Call_feed data (of_nat k)])\<rparr>))"
    using ne half by (simp add: Feed_def traced_def calls_def split: prod.splits)
  moreover have "sint (of_nat k :: c_int) = int k"
    using fits by (rule sint_count)
  moreover have "2 * k < length data" using odd by simp
  ultimately show ?thesis by simp
qed

theorem Feed_odd_forwards_half_witness:
  "length [1, 2, 3 :: byte] = 2 * 1 + 1 \<and> (1 :: nat) < 2 ^ 31 \<and>
   Feed (traced ok_engine) (pcontext p0) [1, 2, 3] =
     Inr (None, \<lparr>context' = ((), [Call_new 0, Call_feed [1, 2, 3] 1]), algorithm = 0\<rparr>)"
proof -
  have odd: "length [1, 2, 3 :: byte] = 2 * 1 + 1" and fits: "(1 :: nat) < 2 ^ 31"
    by simp_all
  from Feed_odd_forwards_half [OF odd fits, of ok_engine "pcontext p0"] odd fits
  show ?thesis
    by (simp add: p0_calls calls_def failed_1 ok_engine_def)
qed

subsection \<open>Feed and the boundaries of chunks\<close>

text \<open>
  C3, the claim as stated: a stream fed as one chunk or as smaller chunks that cover the
  same bytes gives the same fingerprints.  \<open>Feed\<close> passes \<open>len(data)/2\<close> samples on, so a
  chunk with an odd number of bytes loses its last byte and the bytes after it are
  paired anew.  With the library whose fingerprint is what it was fed, the stream
  1, 2, 3, 4 gives 1, 2, 3, 4 as one chunk and 1, 2 as the chunks 1, 2, 3 and 4.
\<close>

theorem chunking_odd_chunks_differ:
  "concat [[1, 2, 3], [4 :: byte]] = [1, 2, 3, 4] \<and>
   chunked_run acc_engine c0 [[1, 2, 3, 4]] =
     Inr (Inr ((bytes_string [1, 2, 3, 4], None), (Some [1, 2, 3, 4], None))) \<and>
   chunked_run acc_engine c0 [[1, 2, 3], [4]] =
     Inr (Inr ((bytes_string [1, 2], None), (Some [1, 2], None))) \<and>
   chunked_run acc_engine c0 [[1, 2, 3, 4]] \<noteq> chunked_run acc_engine c0 [[1, 2, 3], [4]]"
  by (simp add: chunked_run_def Feed_acc tail_acc c0_simp)

lemma Feed_accumulates:
  "feed_accumulates eng \<Longrightarrow> data \<noteq> [] \<Longrightarrow>
   Feed eng ctx data = Inr (None, ctx\<lparr>context' :=
     snd (chromaprint_feed eng (context' ctx) data (of_nat (length data div 2)))\<rparr>)"
proof -
  assume acc: "feed_accumulates eng" and ne: "data \<noteq> []"
  obtain r s where
    c: "chromaprint_feed eng (context' ctx) data (of_nat (length data div 2)) = (r, s)"
    by (cases "chromaprint_feed eng (context' ctx) data (of_nat (length data div 2))")
  from acc have "\<not> failed (fst (chromaprint_feed eng (context' ctx) data
      (of_nat (length data div 2))))"
    unfolding feed_accumulates_def by blast
  with c have "\<not> failed r" by simp
  with ne c show ?thesis by (simp add: Feed_def)
qed

lemma feed_all_concat:
  assumes acc: "feed_accumulates eng"
  shows "c \<noteq> [] \<Longrightarrow> even (length c) \<Longrightarrow> \<forall>d\<in>set cs. d \<noteq> [] \<and> even (length d) \<Longrightarrow>
     length (concat (c # cs)) < 2 ^ 32 \<Longrightarrow>
     feed_all eng ctx (c # cs) = feed_all eng ctx [concat (c # cs)]"
proof (induction cs arbitrary: c ctx)
  case Nil
  then show ?case by simp
next
  case (Cons d ds)
  let ?rest = "concat (d # ds)"
  let ?n = "\<lambda>xs :: byte list. of_nat (length xs div 2) :: c_int"
  let ?s1 = "snd (chromaprint_feed eng (context' ctx) c (?n c))"
  have d: "d \<noteq> []" "even (length d)" "\<forall>x\<in>set ds. x \<noteq> [] \<and> even (length x)"
    using Cons.prems(3) by simp_all
  have len: "length c + length ?rest < 2 ^ 32"
    using Cons.prems(4) by simp
  then have len': "length (concat (d # ds)) < 2 ^ 32" by simp
  have rest_ne: "?rest \<noteq> []" using d(1) by simp
  have rest_even: "even (length ?rest)"
    using d(2,3) by (induction ds) auto
  have "feed_all eng ctx (c # d # ds) = feed_all eng (ctx\<lparr>context' := ?s1\<rparr>) (d # ds)"
    using Cons.prems(1) by (simp add: Feed_accumulates [OF acc])
  also have "\<dots> = feed_all eng (ctx\<lparr>context' := ?s1\<rparr>) [?rest]"
    using d len' by (rule Cons.IH)
  also have "\<dots> = Inr (None, ctx\<lparr>context' :=
      snd (chromaprint_feed eng ?s1 ?rest (?n ?rest))\<rparr>)"
    using rest_ne by (simp add: Feed_accumulates [OF acc])
  also have "snd (chromaprint_feed eng ?s1 ?rest (?n ?rest)) =
      snd (chromaprint_feed eng (context' ctx) (c @ ?rest) (?n (c @ ?rest)))"
    using acc Cons.prems(2) rest_even len unfolding feed_accumulates_def by metis
  also have "Inr (None, ctx\<lparr>context' :=
      snd (chromaprint_feed eng (context' ctx) (c @ ?rest) (?n (c @ ?rest)))\<rparr>) =
      feed_all eng ctx [concat (c # d # ds)]"
    using Cons.prems(1) by (simp add: Feed_accumulates [OF acc])
  finally show ?case .
qed

text \<open>
  C3, as the code has it.  For a library whose feed accumulates, a stream of fewer than
  \<open>2^32\<close> bytes gives the same results of \<open>GetFingerprint\<close> and \<open>GetRawFingerprint\<close>
  after \<open>Finish\<close> when it is fed as one chunk and when it is fed as chunks that each
  hold a whole number of samples, and at least one.
\<close>

theorem chunking_even_chunks:
  assumes "feed_accumulates eng"
    and "chunks \<noteq> []"
    and "\<forall>c\<in>set chunks. c \<noteq> [] \<and> even (length c)"
    and "length (concat chunks) < 2 ^ 32"
  shows "chunked_run eng ctx [concat chunks] = chunked_run eng ctx chunks"
proof -
  from assms(2) obtain c cs where chunks: "chunks = c # cs" by (cases chunks) auto
  with assms(3,4) have "feed_all eng ctx (c # cs) = feed_all eng ctx [concat (c # cs)]"
    by (intro feed_all_concat [OF assms(1)]) simp_all
  with chunks show ?thesis by (simp add: chunked_run_def)
qed

lemma acc_engine_accumulates: "feed_accumulates acc_engine"
proof -
  have half: "2 * nat (sint (of_nat (length xs div 2) :: c_int)) = length xs"
    if "even (length xs)" "length xs < 2 ^ 32" for xs :: "byte list"
  proof -
    from that(2) have "length xs div 2 < 2 ^ 31" by simp
    then have "sint (of_nat (length xs div 2) :: c_int) = int (length xs div 2)"
      by (rule sint_count)
    with that(1) show ?thesis by simp
  qed
  have "snd (chromaprint_feed acc_engine s (xs @ ys) (of_nat (length (xs @ ys) div 2))) =
        snd (chromaprint_feed acc_engine
               (snd (chromaprint_feed acc_engine s xs (of_nat (length xs div 2))))
               ys (of_nat (length ys div 2)))"
    if "even (length xs) \<and> even (length ys) \<and> length xs + length ys < 2 ^ 32"
    for s and xs ys :: "byte list"
  proof -
    from that have "2 * nat (sint (of_nat (length (xs @ ys) div 2) :: c_int)) = length (xs @ ys)"
      by (intro half) simp_all
    moreover from that have "2 * nat (sint (of_nat (length xs div 2) :: c_int)) = length xs"
      by (intro half) simp_all
    moreover from that have "2 * nat (sint (of_nat (length ys div 2) :: c_int)) = length ys"
      by (intro half) simp_all
    ultimately show ?thesis
      by (simp add: acc_engine_def)
  qed
  moreover have "\<not> failed (fst (chromaprint_feed acc_engine s data n))" for s data n
    by (simp add: acc_engine_def failed_1)
  ultimately show ?thesis
    unfolding feed_accumulates_def by blast
qed

theorem chunking_even_chunks_witness:
  "feed_accumulates acc_engine \<and>
   chunked_run acc_engine c0 [concat [[1, 2], [3, 4]]] =
   chunked_run acc_engine c0 [[1, 2], [3, 4]]"
proof -
  have "[[1, 2], [3, 4 :: byte]] \<noteq> []"
    and "\<forall>c\<in>set [[1, 2], [3, 4 :: byte]]. c \<noteq> [] \<and> even (length c)"
    and "length (concat [[1, 2], [3, 4 :: byte]]) < 2 ^ 32"
    by simp_all
  with acc_engine_accumulates
  have "chunked_run acc_engine c0 [concat [[1, 2], [3, 4]]] =
        chunked_run acc_engine c0 [[1, 2], [3, 4]]"
    by (rule chunking_even_chunks)
  with acc_engine_accumulates show ?thesis by simp
qed

section \<open>Properties of the feeder\<close>

subsection \<open>One iteration of the loop\<close>

lemma feed_loop_exit:
  "\<not> total' \<le> maxs \<Longrightarrow> feed_loop eng rd n maxs ctx src total' = Some (Inr (None, ctx, src))"
  by (subst feed_loop.simps) simp

lemma feed_loop_read_error:
  "total' \<le> maxs \<Longrightarrow> rd src n = ((bs, Some e), src') \<Longrightarrow> e \<noteq> EOF \<Longrightarrow>
   feed_loop eng rd n maxs ctx src total' = Some (Inr (Some e, ctx, src'))"
  by (subst feed_loop.simps) simp

lemma feed_loop_break:
  "total' \<le> maxs \<Longrightarrow> rd src n = (([], err), src') \<Longrightarrow> err = None \<or> err = Some EOF \<Longrightarrow>
   feed_loop eng rd n maxs ctx src total' = Some (Inr (None, ctx, src'))"
  by (subst feed_loop.simps) auto

lemma feed_loop_continue:
  "total' \<le> maxs \<Longrightarrow> rd src n = ((bs, err), src') \<Longrightarrow> err = None \<or> err = Some EOF \<Longrightarrow>
   bs \<noteq> [] \<Longrightarrow> length bs \<le> n \<Longrightarrow> Feed eng ctx bs = Inr (None, ctx') \<Longrightarrow>
   feed_loop eng rd n maxs ctx src total' = feed_loop eng rd n maxs ctx' src' (total' + seconds)"
  by (subst feed_loop.simps) auto

lemma feed_loop_feed_error:
  "total' \<le> maxs \<Longrightarrow> rd src n = ((bs, err), src') \<Longrightarrow> err = None \<or> err = Some EOF \<Longrightarrow>
   bs \<noteq> [] \<Longrightarrow> length bs \<le> n \<Longrightarrow> Feed eng ctx bs = Inr (Some e, ctx') \<Longrightarrow>
   feed_loop eng rd n maxs ctx src total' = Some (Inr (Some e, ctx', src'))"
  by (subst feed_loop.simps) auto

lemma feed_loop_oversized:
  "total' \<le> maxs \<Longrightarrow> rd src n = ((bs, err), src') \<Longrightarrow> err = None \<or> err = Some EOF \<Longrightarrow>
   n < length bs \<Longrightarrow>
   feed_loop eng rd n maxs ctx src total' = Some (Inl SliceBoundsOutOfRange)"
  by (subst feed_loop.simps) auto

lemma Feed_nonempty:
  "bs \<noteq> [] \<Longrightarrow>
   \<exists>e ctx'. Feed eng ctx bs = Inr (e, ctx') \<and> (e = None \<or> e = Some ErrFeed)"
  by (simp add: Feed_def split: prod.splits)

lemma calls_Feed:
  "Feed (traced eng) ctx bs = Inr (e, ctx') \<Longrightarrow>
   calls ctx' = calls ctx @ [Call_feed bs (of_nat (length bs div 2))]"
  by (auto simp: Feed_def traced_def calls_def split: if_splits prod.splits)

lemma calls_Finish:
  "calls (snd (Finish (traced eng) ctx)) = calls ctx @ [Call_finish]"
  by (auto simp: Finish_def traced_def calls_def split: prod.splits)

lemma calls_Start:
  "calls (snd (Start (traced eng) ctx r c)) = calls ctx @ [Call_start (ucast r) (ucast c)]"
  by (auto simp: Start_def traced_def calls_def split: prod.splits)

subsection \<open>Several iterations\<close>

lemma feed_loop_feed_chunks:
  "feed_chunks eng rd n k ctx src = Some (ctx', src') \<Longrightarrow>
   (\<forall>j<k. total' + of_nat j * seconds \<le> maxs) \<Longrightarrow>
   feed_loop eng rd n maxs ctx src total' =
   feed_loop eng rd n maxs ctx' src' (total' + of_nat k * seconds)"
proof (induction k arbitrary: ctx src total')
  case 0
  then show ?case by simp
next
  case (Suc k)
  obtain bs err src1 where rd: "rd src n = ((bs, err), src1)"
    by (metis surj_pair)
  from Suc.prems(1) rd have ok: "err = None \<or> err = Some EOF" "bs \<noteq> []" "length bs \<le> n"
    by (auto split: if_splits)
  from Suc.prems(1) rd ok obtain ctx1 where
    feed: "Feed eng ctx bs = Inr (None, ctx1)" and
    rest: "feed_chunks eng rd n k ctx1 src1 = Some (ctx', src')"
    by (auto split: sum.splits option.splits prod.splits)
  from Suc.prems(2) have here: "total' \<le> maxs"
    by (metis add.right_neutral mult_zero_left of_nat_0 zero_less_Suc)
  have later: "\<forall>j<k. (total' + seconds) + of_nat j * seconds \<le> maxs"
  proof (intro allI impI)
    fix j assume "j < k"
    then have "total' + of_nat (Suc j) * seconds \<le> maxs"
      using Suc.prems(2) by auto
    then show "(total' + seconds) + of_nat j * seconds \<le> maxs"
      by (simp add: algebra_simps)
  qed
  have "feed_loop eng rd n maxs ctx src total' =
        feed_loop eng rd n maxs ctx1 src1 (total' + seconds)"
    using here rd ok feed by (rule feed_loop_continue)
  also have "\<dots> = feed_loop eng rd n maxs ctx' src' ((total' + seconds) + of_nat k * seconds)"
    using rest later by (rule Suc.IH)
  finally show ?case by (simp add: algebra_simps)
qed



lemma ten_times_le_120:
  "j < 13 \<Longrightarrow> (of_nat j :: uint) * seconds \<le> 120"
proof -
  assume "j < 13"
  then have "unat ((of_nat j :: uint) * seconds) = j * 10"
    by (simp add: seconds_def unat_word_ariths unat_of_nat)
  with \<open>j < 13\<close> show ?thesis by (simp add: word_le_nat_alt)
qed


lemma unat_plus_seconds:
  fixes total' maxs :: uint
  assumes "unat maxs < 18446744073709551610" "10 dvd unat total'" "total' \<le> maxs"
  shows "unat (total' + seconds) = unat total' + 10"
proof -
  from assms(3) have "unat total' \<le> unat maxs" by (simp add: word_le_nat_alt)
  with assms(1,2) have "unat total' + 10 < 18446744073709551616" by presburger
  then show ?thesis
    by (simp add: seconds_def unat_word_ariths)
qed

lemma feeds_bound_0: "feeds_bound maxs 0 = unat maxs div 10 + 1"
  by (simp add: feeds_bound_def)

lemma feed_loop_bounded:
  fixes total' maxs :: uint
  assumes "unat maxs < 18446744073709551610" and "10 dvd unat total'"
  shows "\<exists>res. feed_loop (traced eng) rd n maxs ctx src total' = Some res \<and>
           (\<forall>e ctx' src'. res = Inr (e, ctx', src') \<longrightarrow>
              (\<exists>fs. calls ctx' = calls ctx @ fs \<and> (\<forall>c\<in>set fs. is_feed c) \<and>
                    length fs \<le> feeds_bound maxs total'))"
  using assms(2)
proof (induction "unat maxs + 10 - unat total'" arbitrary: ctx src total' rule: less_induct)
  case less
  show ?case
  proof (cases "total' \<le> maxs")
    case False
    then have "feed_loop (traced eng) rd n maxs ctx src total' = Some (Inr (None, ctx, src))"
      by (rule feed_loop_exit)
    then show ?thesis by simp
  next
    case True
    obtain bs err src1 where rd: "rd src n = ((bs, err), src1)"
      by (metis surj_pair)
    have bound1: "1 \<le> feeds_bound maxs total'"
      using True by (simp add: feeds_bound_def)
    have "(\<exists>e. err = Some e \<and> e \<noteq> EOF) \<or>
        ((err = None \<or> err = Some EOF) \<and>
         (bs = [] \<or> n < length bs \<or> (bs \<noteq> [] \<and> length bs \<le> n)))"
      by (cases err) auto
    then consider (err) e where "err = Some e" "e \<noteq> EOF"
      | (brk) "err = None \<or> err = Some EOF" "bs = []"
      | (big) "err = None \<or> err = Some EOF" "n < length bs"
      | (feed) "err = None \<or> err = Some EOF" "bs \<noteq> []" "length bs \<le> n"
      by blast
    then show ?thesis
    proof cases
      case err
      with True rd have "feed_loop (traced eng) rd n maxs ctx src total' =
          Some (Inr (Some e, ctx, src1))"
        by (simp add: feed_loop_read_error)
      then show ?thesis by simp
    next
      case brk
      with True rd have "feed_loop (traced eng) rd n maxs ctx src total' =
          Some (Inr (None, ctx, src1))"
        by (simp add: feed_loop_break)
      then show ?thesis by simp
    next
      case big
      with True rd have "feed_loop (traced eng) rd n maxs ctx src total' =
          Some (Inl SliceBoundsOutOfRange)"
        by (simp add: feed_loop_oversized)
      then show ?thesis by simp
    next
      case feed
      obtain e ctx1 where fd: "Feed (traced eng) ctx bs = Inr (e, ctx1)"
        using Feed_nonempty [OF feed(2)] by blast
      have c1: "calls ctx1 = calls ctx @ [Call_feed bs (of_nat (length bs div 2))]"
        using fd by (rule calls_Feed)
      show ?thesis
      proof (cases e)
        case (Some x)
        with True rd feed fd have "feed_loop (traced eng) rd n maxs ctx src total' =
            Some (Inr (Some x, ctx1, src1))"
          by (simp add: feed_loop_feed_error)
        with c1 bound1 show ?thesis by simp
      next
        case None
        have step: "unat (total' + seconds) = unat total' + 10"
          using assms(1) less.prems True by (rule unat_plus_seconds)
        have le: "unat total' \<le> unat maxs"
          using True by (simp add: word_le_nat_alt)
        have eq: "feed_loop (traced eng) rd n maxs ctx src total' =
            feed_loop (traced eng) rd n maxs ctx1 src1 (total' + seconds)"
          using True rd feed fd None by (simp add: feed_loop_continue)
        have "unat maxs + 10 - unat (total' + seconds) < unat maxs + 10 - unat total'"
          using step le by simp
        moreover have "10 dvd unat (total' + seconds)"
          using step less.prems by simp
        ultimately obtain res where
          res: "feed_loop (traced eng) rd n maxs ctx1 src1 (total' + seconds) = Some res" and
          fs: "\<forall>e ctx' src'. res = Inr (e, ctx', src') \<longrightarrow>
              (\<exists>fs. calls ctx' = calls ctx1 @ fs \<and> (\<forall>c\<in>set fs. is_feed c) \<and>
                    length fs \<le> feeds_bound maxs (total' + seconds))"
          using less.hyps [of "total' + seconds" ctx1 src1] by blast
        have bound: "Suc (feeds_bound maxs (total' + seconds)) \<le> feeds_bound maxs total'"
          using step le True by (auto simp: feeds_bound_def word_le_nat_alt)
        have "\<exists>fs. calls ctx' = calls ctx @ fs \<and> (\<forall>c\<in>set fs. is_feed c) \<and>
                    length fs \<le> feeds_bound maxs total'"
          if "res = Inr (e', ctx', src')" for e' ctx' src'
        proof -
          from fs that obtain fs' where
            fs': "calls ctx' = calls ctx1 @ fs'" "\<forall>c\<in>set fs'. is_feed c"
              "length fs' \<le> feeds_bound maxs (total' + seconds)"
            by blast
          have "calls ctx' = calls ctx @ (Call_feed bs (of_nat (length bs div 2)) # fs')"
            using fs'(1) c1 by simp
          moreover have "\<forall>c\<in>set (Call_feed bs (of_nat (length bs div 2)) # fs'). is_feed c"
            using fs'(2) by simp
          moreover have "length (Call_feed bs (of_nat (length bs div 2)) # fs') \<le> feeds_bound maxs total'"
            using fs'(3) bound by simp
          ultimately show ?thesis by blast
        qed
        then have "\<forall>e ctx' src'. res = Inr (e, ctx', src') \<longrightarrow>
              (\<exists>fs. calls ctx' = calls ctx @ fs \<and> (\<forall>c\<in>set fs. is_feed c) \<and>
                    length fs \<le> feeds_bound maxs total')"
          by (intro allI impI)
        moreover from eq res have "feed_loop (traced eng) rd n maxs ctx src total' = Some res"
          by simp
        ultimately show ?thesis by (intro exI [of _ res] conjI)
      qed
    qed
  qed
qed

subsection \<open>The whole of prepare\<close>

lemma prepare_unfold:
  assumes "Start eng (pcontext p) (Rate i) (Channels i) = (None, ctx1)"
    and "unat (2 * seconds * Rate i * Channels i) = n" and "n < 2 ^ 63"
  shows "prepare eng rd p i =
     (case feed_loop eng rd n (cap i) ctx1 (Src i) 0 of
        None \<Rightarrow> None
      | Some (Inl pn) \<Rightarrow> Some (Inl pn)
      | Some (Inr (Some e, ctx2, src')) \<Rightarrow> Some (Inr (Some e, p\<lparr>pcontext := ctx2\<rparr>, src'))
      | Some (Inr (None, ctx2, src')) \<Rightarrow>
          Some (Inr (fst (Finish eng ctx2), p\<lparr>pcontext := snd (Finish eng ctx2)\<rparr>, src')))"
  using assms
  by (simp add: prepare_def cap_def Let_def split: option.splits sum.splits prod.splits)


lemma prepare_start_error:
  "Start eng (pcontext p) (Rate i) (Channels i) = (Some e, ctx1) \<Longrightarrow>
   prepare eng rd p i = Some (Inr (Some e, p\<lparr>pcontext := ctx1\<rparr>, Src i))"
  by (simp add: prepare_def Let_def)

lemma prepare_len_panic:
  "Start eng (pcontext p) (Rate i) (Channels i) = (None, ctx1) \<Longrightarrow>
   2 ^ 63 \<le> unat (2 * seconds * Rate i * Channels i) \<Longrightarrow>
   prepare eng rd p i = Some (Inl LenOutOfRange)"
  by (simp add: prepare_def Let_def)

lemma prepare_bounded:
  assumes nowrap: "unat (cap i) < 18446744073709551610"
  shows "\<exists>res. prepare (traced eng) rd p i = Some res \<and>
           (\<forall>e p' src'. res = Inr (e, p', src') \<longrightarrow>
              (\<exists>fs fin. calls (pcontext p') =
                   calls (pcontext p) @ Call_start (ucast (Rate i)) (ucast (Channels i)) # fs @ fin \<and>
                 (\<forall>c\<in>set fs. is_feed c) \<and> length fs \<le> unat (cap i) div 10 + 1 \<and>
                 (fin = [] \<or> fin = [Call_finish])))"
proof -
  let ?start = "Call_start (ucast (Rate i)) (ucast (Channels i))"
  let ?n = "unat (2 * seconds * Rate i * Channels i)"
  obtain e1 ctx1 where st: "Start (traced eng) (pcontext p) (Rate i) (Channels i) = (e1, ctx1)"
    by (cases "Start (traced eng) (pcontext p) (Rate i) (Channels i)")
  have c1: "calls ctx1 = calls (pcontext p) @ [?start]"
    using calls_Start [of eng "pcontext p" "Rate i" "Channels i"] st by simp
  show ?thesis
  proof (cases e1)
    case (Some x)
    with st have "prepare (traced eng) rd p i = Some (Inr (Some x, p\<lparr>pcontext := ctx1\<rparr>, Src i))"
      by (simp add: prepare_start_error)
    moreover have "\<exists>fs fin. calls (pcontext (p\<lparr>pcontext := ctx1\<rparr>)) =
                   calls (pcontext p) @ ?start # fs @ fin \<and>
                 (\<forall>c\<in>set fs. is_feed c) \<and> length fs \<le> unat (cap i) div 10 + 1 \<and>
                 (fin = [] \<or> fin = [Call_finish])"
      using c1 by (intro exI [of _ "[]"]) simp
    ultimately show ?thesis by simp
  next
    case None
    show ?thesis
    proof (cases "2 ^ 63 \<le> ?n")
      case True
      with st None have "prepare (traced eng) rd p i = Some (Inl LenOutOfRange)"
        by (simp add: prepare_len_panic)
      then show ?thesis by simp
    next
      case False
      then have small: "?n < 2 ^ 63" by simp
      have unf: "prepare (traced eng) rd p i =
         (case feed_loop (traced eng) rd ?n (cap i) ctx1 (Src i) 0 of
            None \<Rightarrow> None
          | Some (Inl pn) \<Rightarrow> Some (Inl pn)
          | Some (Inr (Some e, ctx2, src')) \<Rightarrow> Some (Inr (Some e, p\<lparr>pcontext := ctx2\<rparr>, src'))
          | Some (Inr (None, ctx2, src')) \<Rightarrow>
              Some (Inr (fst (Finish (traced eng) ctx2),
                         p\<lparr>pcontext := snd (Finish (traced eng) ctx2)\<rparr>, src')))"
        using st None small by (simp add: prepare_unfold)
      have "10 dvd unat (0 :: uint)" by simp
      with nowrap obtain r where
        r: "feed_loop (traced eng) rd ?n (cap i) ctx1 (Src i) 0 = Some r" and
        ext: "\<forall>e ctx' src'. r = Inr (e, ctx', src') \<longrightarrow>
            (\<exists>fs. calls ctx' = calls ctx1 @ fs \<and> (\<forall>c\<in>set fs. is_feed c) \<and>
                  length fs \<le> feeds_bound (cap i) 0)"
        using feed_loop_bounded [of "cap i" 0 eng rd ?n ctx1 "Src i"] by blast
      show ?thesis
      proof (cases r)
        case (Inl pn)
        with unf r show ?thesis by simp
      next
        case (Inr t)
        obtain e ctx2 src2 where t: "t = (e, ctx2, src2)" by (cases t)
        from ext Inr t obtain fs where fs: "calls ctx2 = calls ctx1 @ fs"
          "\<forall>c\<in>set fs. is_feed c" "length fs \<le> unat (cap i) div 10 + 1"
          by (auto simp: feeds_bound_0)
        show ?thesis
        proof (cases e)
          case None
          let ?p' = "p\<lparr>pcontext := snd (Finish (traced eng) ctx2)\<rparr>"
          have "prepare (traced eng) rd p i = Some (Inr (fst (Finish (traced eng) ctx2), ?p', src2))"
            using unf r Inr t None by simp
          moreover have "\<exists>fs fin. calls (pcontext ?p') =
                   calls (pcontext p) @ ?start # fs @ fin \<and>
                 (\<forall>c\<in>set fs. is_feed c) \<and> length fs \<le> unat (cap i) div 10 + 1 \<and>
                 (fin = [] \<or> fin = [Call_finish])"
            using fs c1 by (intro exI [of _ fs] exI [of _ "[Call_finish]"]) (simp add: calls_Finish)
          ultimately show ?thesis by simp
        next
          case (Some x)
          let ?p' = "p\<lparr>pcontext := ctx2\<rparr>"
          have "prepare (traced eng) rd p i = Some (Inr (Some x, ?p', src2))"
            using unf r Inr t Some by simp
          moreover have "\<exists>fs fin. calls (pcontext ?p') =
                   calls (pcontext p) @ ?start # fs @ fin \<and>
                 (\<forall>c\<in>set fs. is_feed c) \<and> length fs \<le> unat (cap i) div 10 + 1 \<and>
                 (fin = [] \<or> fin = [Call_finish])"
            using fs c1 by (intro exI [of _ fs] exI [of _ "[]"]) simp
          ultimately show ?thesis by simp
        qed
      qed
    qed
  qed
qed

subsection \<open>The floor of 120 seconds\<close>



subsection \<open>The cap on the number of chunks\<close>

lemma feed_loop_silence_13:
  "feed_loop (traced ok_engine) silence 20 120 ctx () 0 =
     Some (Inr (None, ctx\<lparr>context' := ((), snd (context' ctx) @
        replicate 13 (Call_feed (replicate 20 0) 10))\<rparr>, ()))"
proof -
  let ?ctx' = "ctx\<lparr>context' := ((), snd (context' ctx) @
        replicate 13 (Call_feed (replicate 20 0) (of_nat (20 div 2))))\<rparr>"
  have "feed_chunks (traced ok_engine) silence 20 13 ctx () = Some (?ctx', ())"
    by (rule feed_chunks_silence) simp
  moreover have "\<forall>j<13. 0 + of_nat j * seconds \<le> (120 :: uint)"
    using ten_times_le_120 by simp
  ultimately have "feed_loop (traced ok_engine) silence 20 120 ctx () 0 =
      feed_loop (traced ok_engine) silence 20 120 ?ctx' () (0 + of_nat 13 * seconds)"
    by (rule feed_loop_feed_chunks)
  also have "\<dots> = Some (Inr (None, ?ctx', ()))"
    by (rule feed_loop_exit) (simp add: seconds_def)
  finally show ?thesis by simp
qed

text \<open>
  C2, the claim as stated: with \<open>MaxSeconds = 30\<close> and a source that never runs out, at
  most \<open>ceil(30/10) = 3\<close> chunks are fed.  The code raises 30 to 120 first, and its
  loop runs while the counter is at most the cap, the counter taking the values
  0, 10, ..., 120: on the silent source thirteen chunks are fed, not three.
\<close>

theorem cap_30_feeds_13_chunks:
  "prepare (traced ok_engine) silence p0 \<lparr>Src = (), Channels = 1, Rate = 1, MaxSeconds = 30\<rparr> =
     Some (Inr (None,
       \<lparr>pcontext = \<lparr>context' = ((), [Call_new 0, Call_start 1 1] @
          replicate 13 (Call_feed (replicate 20 0) 10) @ [Call_finish]), algorithm = 0\<rparr>\<rparr>, ())) \<and>
   length (filter is_feed ([Call_new 0, Call_start 1 1] @
          replicate 13 (Call_feed (replicate 20 0) 10) @ [Call_finish])) = 13"
  by (simp add: prepare_def Let_def minmaxseconds_def seconds_def Start_traced_ok
        feed_loop_silence_13 Finish_traced_ok p0_calls p0_def New_def NewChromaprint_def
        traced_ok_simps)

text \<open>
  C2, as the code has it.  With \<open>MaxSeconds = 30\<close>, for every source and every library,
  \<open>prepare\<close> ends, and when it returns it has called start, then feed at most 13 times
  (\<open>120 div 10 + 1\<close>), then finish or nothing.
\<close>

theorem cap_30_at_most_13_feeds:
  assumes "MaxSeconds i = 30"
  shows "\<exists>res. prepare (traced eng) rd p i = Some res \<and>
           (\<forall>e p' src'. res = Inr (e, p', src') \<longrightarrow>
              (\<exists>fs fin. calls (pcontext p') =
                   calls (pcontext p) @ Call_start (ucast (Rate i)) (ucast (Channels i)) # fs @ fin \<and>
                 (\<forall>c\<in>set fs. is_feed c) \<and> length fs \<le> 13 \<and>
                 (fin = [] \<or> fin = [Call_finish])))"
proof -
  have cap: "cap i = 120"
    using assms by (simp add: cap_def minmaxseconds_def)
  then have "unat (cap i) < 18446744073709551610" by simp
  from prepare_bounded [OF this, of eng rd p] cap show ?thesis by simp
qed

theorem cap_30_at_most_13_feeds_witness:
  "MaxSeconds \<lparr>Src = (), Channels = 1, Rate = 1, MaxSeconds = 30 :: uint\<rparr> = 30 \<and>
   (\<exists>res. prepare (traced ok_engine) silence p0
             \<lparr>Src = (), Channels = 1, Rate = 1, MaxSeconds = 30\<rparr> = Some res)"
proof -
  let ?i = "\<lparr>Src = (), Channels = 1, Rate = 1, MaxSeconds = 30 :: uint\<rparr>"
  have h: "MaxSeconds ?i = 30" by simp
  from cap_30_at_most_13_feeds [OF h, of ok_engine silence p0] h show ?thesis
    by blast
qed

lemma feed_loop_never_ends_aux:
  "feed_loop eng rd m maxs c s t' = Some r \<Longrightarrow>
   \<not> (eng = ok_engine \<and> rd = silence \<and> m = Suc n \<and> maxs = - 1)"
  apply (rule feed_loop.raw_induct
      [where P = "\<lambda>eng rd m maxs c s t' r.
         \<not> (eng = ok_engine \<and> rd = silence \<and> m = Suc n \<and> maxs = - 1)"])
   apply (auto simp: silence_def Feed_def ok_engine_def failed_1)
  apply blast
  done

lemma feed_loop_never_ends:
  "feed_loop ok_engine silence (Suc n) (- 1) ctx src t = None"
proof (cases "feed_loop ok_engine silence (Suc n) (- 1) ctx src t")
  case None
  then show ?thesis .
next
  case (Some r)
  from feed_loop_never_ends_aux [OF this, of n] show ?thesis by simp
qed

text \<open>
  C6, the claim as stated: for every source the loop ends, after at most
  \<open>MaxSeconds div 10 + 1\<close> calls of feed.  The counter is a \<open>uint\<close> and wraps around:
  with \<open>MaxSeconds = 2^64 - 1\<close> the test \<open>total <= MaxSeconds\<close> never fails, and on a
  source that never runs out \<open>prepare\<close> does not return.
\<close>

theorem cap_max_uint_never_ends:
  "prepare ok_engine silence (New ok_engine 0)
     \<lparr>Src = (), Channels = 1, Rate = 1, MaxSeconds = 18446744073709551615\<rparr> = None"
proof -
  have "(18446744073709551615 :: uint) = - 1" by simp
  moreover have "(20 :: nat) = Suc 19" by simp
  ultimately have "feed_loop ok_engine silence 20 18446744073709551615 ctx src 0 = None" for ctx src
    using feed_loop_never_ends [of 19 ctx src 0] by metis
  then show ?thesis
    by (simp add: prepare_def Let_def minmaxseconds_def seconds_def Start_ok)
qed

text \<open>
  C6, as the code has it.  The counter advances by 10 at each iteration, whatever the
  number of bytes read.  When the cap (\<open>MaxSeconds\<close>, or 120 if that is more) is below
  \<open>2^64 - 6\<close> the counter passes the cap before it wraps around: for every source and
  every library \<open>prepare\<close> ends, and when it returns it has called start, then feed at
  most \<open>cap div 10 + 1\<close> times, then finish or nothing.
\<close>

theorem feed_loop_terminates_bounded:
  assumes "unat (cap i) < 18446744073709551610"
  shows "\<exists>res. prepare (traced eng) rd p i = Some res \<and>
           (\<forall>e p' src'. res = Inr (e, p', src') \<longrightarrow>
              (\<exists>fs fin. calls (pcontext p') =
                   calls (pcontext p) @ Call_start (ucast (Rate i)) (ucast (Channels i)) # fs @ fin \<and>
                 (\<forall>c\<in>set fs. is_feed c) \<and> length fs \<le> unat (cap i) div 10 + 1 \<and>
                 (fin = [] \<or> fin = [Call_finish])))"
  using assms by (rule prepare_bounded)

theorem feed_loop_terminates_bounded_witness:
  "unat (cap \<lparr>Src = (), Channels = 1, Rate = 1, MaxSeconds = 125 :: uint\<rparr>) < 18446744073709551610 \<and>
   (\<exists>res. prepare (traced ok_engine) silence p0
             \<lparr>Src = (), Channels = 1, Rate = 1, MaxSeconds = 125\<rparr> = Some res)"
proof -
  let ?i = "\<lparr>Src = (), Channels = 1, Rate = 1, MaxSeconds = 125 :: uint\<rparr>"
  have h: "unat (cap ?i) < 18446744073709551610"
    by (simp add: cap_def minmaxseconds_def)
  from feed_loop_terminates_bounded [OF h, of ok_engine silence p0] h show ?thesis
    by blast
qed

subsection \<open>How the loop is left\<close>





text \<open>
  C10.  At an iteration of the loop the read returns \<open>n > 0\<close> bytes together with
  \<open>io.EOF\<close>, and the library takes them.  Then those bytes are fed (the call is the
  last one the library has received) and the loop goes on with the next value of the
  counter; when that value is within the cap and the next read returns zero bytes, the
  loop ends there with no error.
\<close>

theorem data_with_eof_is_fed:
  assumes incap: "total' \<le> maxs"
    and rd1: "rd src n = ((bs, Some EOF), src1)" "bs \<noteq> []" "length bs \<le> n"
    and fed: "Feed (traced eng) ctx bs = Inr (None, ctx1)"
    and next_incap: "total' + seconds \<le> maxs"
    and rd2: "rd src1 n = (([], err), src2)" "err = None \<or> err = Some EOF"
  shows "feed_loop (traced eng) rd n maxs ctx src total' =
           feed_loop (traced eng) rd n maxs ctx1 src1 (total' + seconds) \<and>
         calls ctx1 = calls ctx @ [Call_feed bs (of_nat (length bs div 2))] \<and>
         feed_loop (traced eng) rd n maxs ctx src total' = Some (Inr (None, ctx1, src2))"
proof -
  have "Some EOF = None \<or> Some EOF = Some EOF" by simp
  with incap rd1(1) have step: "feed_loop (traced eng) rd n maxs ctx src total' =
      feed_loop (traced eng) rd n maxs ctx1 src1 (total' + seconds)"
    using rd1(2,3) fed by (rule feed_loop_continue)
  moreover have "feed_loop (traced eng) rd n maxs ctx1 src1 (total' + seconds) =
      Some (Inr (None, ctx1, src2))"
    using next_incap rd2 by (rule feed_loop_break)
  moreover have "calls ctx1 = calls ctx @ [Call_feed bs (of_nat (length bs div 2))]"
    using fed by (rule calls_Feed)
  ultimately show ?thesis by simp
qed

theorem data_with_eof_is_fed_witness:
  "feed_loop (traced ok_engine) script 20 120 (pcontext p0) [([1, 2, 3, 4], Some EOF)] 0 =
   Some (Inr (None, \<lparr>context' = ((), [Call_new 0, Call_feed [1, 2, 3, 4] 2]), algorithm = 0\<rparr>, []))"
proof -
  let ?ctx1 = "\<lparr>context' = ((), [Call_new 0, Call_feed [1, 2, 3, 4] 2]), algorithm = 0 :: go_int\<rparr>"
  have incap: "(0 :: uint) \<le> 120" by simp
  have rd1: "script [([1, 2, 3, 4], Some EOF)] 20 = (([1, 2, 3, 4], Some EOF), [])"
      "[1, 2, 3, 4 :: byte] \<noteq> []" "length [1, 2, 3, 4 :: byte] \<le> 20"
    by (simp_all add: script_simps)
  have fed: "Feed (traced ok_engine) (pcontext p0) [1, 2, 3, 4] = Inr (None, ?ctx1)"
    by (simp add: Feed_traced_ok p0_calls)
  have next_incap: "(0 :: uint) + seconds \<le> 120" by (simp add: seconds_def)
  have rd2: "script [] 20 = (([], Some EOF), [])" "Some EOF = None \<or> Some EOF = Some EOF"
    by (simp_all add: script_simps)
  from data_with_eof_is_fed [where rd = script and n = 20 and eng = ok_engine,
      OF incap rd1 fed next_incap rd2]
  show ?thesis by (elim conjE)
qed

end
